theory Spec2Isabelle
  imports Main "HOL-Library.Word"
begin

section \<open>Data: bytes, text and the wire constants\<close>

text \<open>
  A datagram is a list of bytes. A Python \<open>str\<close> is a list of Unicode code points,
  written here as natural numbers; \<open>str\<close> turns a literal into such a list.
\<close>

type_synonym byte = "8 word"
type_synonym pystr = "nat list"

definition str :: "string \<Rightarrow> pystr" where
  "str s = map of_char s"

definition RB3E_EVENTS_MAGIC :: nat where "RB3E_EVENTS_MAGIC = 0x52423345"
definition RB3E_EVENTS_PROTOCOL :: nat where "RB3E_EVENTS_PROTOCOL = 0"
definition RB3E_EVENT_ALIVE :: nat where "RB3E_EVENT_ALIVE = 0"
definition RB3E_EVENT_STATE :: nat where "RB3E_EVENT_STATE = 1"
definition RB3E_EVENT_SONG_NAME :: nat where "RB3E_EVENT_SONG_NAME = 2"
definition RB3E_EVENT_SONG_ARTIST :: nat where "RB3E_EVENT_SONG_ARTIST = 3"

subsection \<open>Library operations on bytes\<close>

text \<open>\<open>data[i:j]\<close> for \<open>0 \<le> i \<le> j\<close>: Python cuts the slice at the end of the data.\<close>

definition slice :: "nat \<Rightarrow> nat \<Rightarrow> 'a list \<Rightarrow> 'a list" where
  "slice i j xs = take (j - i) (drop i xs)"

text \<open>\<open>struct.unpack('>I', bs)[0]\<close>: the bytes read as one big-endian number.\<close>

definition unpack_be :: "byte list \<Rightarrow> nat" where
  "unpack_be bs = foldl (\<lambda>acc b. acc * 256 + unat b) 0 bs"

text \<open>\<open>bs.rstrip(b'\x00')\<close>.\<close>

definition rstrip_nul :: "byte list \<Rightarrow> byte list" where
  "rstrip_nul bs = rev (dropWhile (\<lambda>b. b = 0) (rev bs))"

subsection \<open>UTF-8 decoding with an error handler\<close>

text \<open>
  \<open>bytes.decode('utf-8', errors=h)\<close>. The decoder reads one sequence at the head of
  the input: either a code point and the number of bytes it took, or an invalid
  stretch, with the number of bytes the error handler is told to skip. Overlong forms,
  surrogates and values above \<open>0x10FFFF\<close> are invalid. The source calls the decoder
  with \<open>errors='ignore'\<close>, which drops the invalid stretch; \<open>errors='replace'\<close> puts
  \<open>U+FFFD\<close> in its place.
\<close>

datatype utf8_errors = Ignore | Replace

datatype utf8_step = Decoded nat nat | Invalid nat

definition is_cont :: "byte \<Rightarrow> bool" where
  "is_cont b \<longleftrightarrow> 0x80 \<le> unat b \<and> unat b < 0xC0"

fun utf8_next :: "byte list \<Rightarrow> utf8_step" where
  "utf8_next [] = Invalid 0"
| "utf8_next (b # bs) =
    (let ch = unat b in
     if ch < 0x80 then Decoded ch 1
     else if ch < 0xC2 then Invalid 1
     else if ch < 0xE0 then
       (case bs of
          [] \<Rightarrow> Invalid 1
        | b2 # _ \<Rightarrow>
            if is_cont b2 then Decoded ((ch - 0xC0) * 64 + (unat b2 - 0x80)) 2
            else Invalid 1)
     else if ch < 0xF0 then
       (case bs of
          [] \<Rightarrow> Invalid 1
        | b2 # bs2 \<Rightarrow>
            if \<not> is_cont b2 \<or> (ch = 0xE0 \<and> unat b2 < 0xA0) \<or> (ch = 0xED \<and> 0xA0 \<le> unat b2)
            then Invalid 1
            else (case bs2 of
                    [] \<Rightarrow> Invalid 2
                  | b3 # _ \<Rightarrow>
                      if is_cont b3
                      then Decoded ((ch - 0xE0) * 4096 + (unat b2 - 0x80) * 64 + (unat b3 - 0x80)) 3
                      else Invalid 2))
     else if ch < 0xF5 then
       (case bs of
          [] \<Rightarrow> Invalid 1
        | b2 # bs2 \<Rightarrow>
            if \<not> is_cont b2 \<or> (ch = 0xF0 \<and> unat b2 < 0x90) \<or> (ch = 0xF4 \<and> 0x90 \<le> unat b2)
            then Invalid 1
            else (case bs2 of
                    [] \<Rightarrow> Invalid 2
                  | b3 # bs3 \<Rightarrow>
                      if \<not> is_cont b3 then Invalid 2
                      else (case bs3 of
                              [] \<Rightarrow> Invalid 3
                            | b4 # _ \<Rightarrow>
                                if is_cont b4
                                then Decoded ((ch - 0xF0) * 262144 + (unat b2 - 0x80) * 4096
                                              + (unat b3 - 0x80) * 64 + (unat b4 - 0x80)) 4
                                else Invalid 3)))
     else Invalid 1)"

definition on_error :: "utf8_errors \<Rightarrow> pystr" where
  "on_error h = (case h of Ignore \<Rightarrow> [] | Replace \<Rightarrow> [0xFFFD])"

lemma utf8_next_Decoded_pos: "utf8_next (b # bs) = Decoded cp n \<Longrightarrow> 0 < n"
  by (auto simp: Let_def split: if_splits list.splits)

lemma utf8_next_Invalid_pos: "utf8_next (b # bs) = Invalid n \<Longrightarrow> 0 < n"
  by (auto simp: Let_def split: if_splits list.splits)

function utf8_decode :: "utf8_errors \<Rightarrow> byte list \<Rightarrow> pystr" where
  "utf8_decode h [] = []"
| "utf8_decode h (b # bs) =
    (case utf8_next (b # bs) of
       Decoded cp n \<Rightarrow> cp # utf8_decode h (drop n (b # bs))
     | Invalid n \<Rightarrow> on_error h @ utf8_decode h (drop n (b # bs)))"
  by pat_completeness auto
termination
proof (relation "measure (\<lambda>(h, bs). length bs)")
  show "wf (measure (\<lambda>(h, bs). length bs))" by simp
next
  fix h :: utf8_errors and b :: byte and bs cp n
  assume "utf8_next (b # bs) = Decoded cp n"
  then have "0 < n" by (rule utf8_next_Decoded_pos)
  then show "((h, drop n (b # bs)), (h, b # bs)) \<in> measure (\<lambda>(h, bs). length bs)"
    by simp
next
  fix h :: utf8_errors and b :: byte and bs n
  assume "utf8_next (b # bs) = Invalid n"
  then have "0 < n" by (rule utf8_next_Invalid_pos)
  then show "((h, drop n (b # bs)), (h, b # bs)) \<in> measure (\<lambda>(h, bs). length bs)"
    by simp
qed

section \<open>The packet decoder\<close>

text \<open>
  The first half of \<open>RB3EventListener.process_packet\<close>, up to the dispatch on the
  event type: the length check, the header fields, the checks of magic and version,
  and the payload text. \<open>None\<close> is the early \<open>return\<close> of a malformed packet.
\<close>

record packet =
  packet_type :: nat
  packet_data :: pystr

definition decode :: "byte list \<Rightarrow> packet option" where
  "decode data =
    (if length data < 8 then None
     else
       let magic = unpack_be (slice 0 4 data);
           version = unat (data ! 4);
           ptype = unat (data ! 5);
           packet_size = unat (data ! 6)
       in if magic \<noteq> RB3E_EVENTS_MAGIC then None
          else if version \<noteq> RB3E_EVENTS_PROTOCOL then None
          else Some \<lparr>packet_type = ptype,
                     packet_data =
                       (if packet_size > 0
                        then utf8_decode Ignore (rstrip_nul (slice 8 (8 + packet_size) data))
                        else [])\<rparr>)"

section \<open>Text operations of the interpreter\<close>

text \<open>
  The characters \<open>str.isspace\<close>, \<open>str.strip\<close> and the pattern \<open>\s\<close> treat as
  white space.
\<close>

definition py_isspace :: "nat \<Rightarrow> bool" where
  "py_isspace c \<longleftrightarrow>
     (0x09 \<le> c \<and> c \<le> 0x0D) \<or> (0x1C \<le> c \<and> c \<le> 0x20) \<or> c = 0x85 \<or> c = 0xA0 \<or>
     c = 0x1680 \<or> (0x2000 \<le> c \<and> c \<le> 0x200A) \<or> c = 0x2028 \<or> c = 0x2029 \<or>
     c = 0x202F \<or> c = 0x205F \<or> c = 0x3000"

definition strip :: "pystr \<Rightarrow> pystr" where
  "strip s = rev (dropWhile py_isspace (rev (dropWhile py_isspace s)))"

text \<open>\<open>sub in s\<close> on strings: \<open>sub\<close> occurs in \<open>s\<close> as a contiguous piece.\<close>

fun contains :: "pystr \<Rightarrow> pystr \<Rightarrow> bool" where
  "contains sub [] = (sub = [])"
| "contains sub (c # cs) = (take (length sub) (c # cs) = sub \<or> contains sub cs)"

text \<open>
  \<open>str.isdigit\<close>, \<open>int\<close> and \<open>str.lower\<close> read the Unicode tables of the
  interpreter. Their rows for the code points below 256 are written out; the rows
  above, which grow with every Unicode version, are parameters. \<open>py_int\<close> is \<open>int(s)\<close>
  on a string that passed \<open>isdigit\<close>: it raises \<open>ValueError\<close> (here \<open>None\<close>) when a
  character is a digit without a decimal value, as the superscript two is. The
  interpreter's limit on the length of a numeral, 4300 digits, is out of reach: a
  payload has at most 255 bytes.
\<close>

record unicode =
  u_isdigit :: "nat \<Rightarrow> bool"
  u_decimal :: "nat \<Rightarrow> nat option"
  u_lower :: "pystr \<Rightarrow> pystr"

definition isdigit_char :: "unicode \<Rightarrow> nat \<Rightarrow> bool" where
  "isdigit_char u c =
     (if c < 256 then (0x30 \<le> c \<and> c \<le> 0x39) \<or> c = 0xB2 \<or> c = 0xB3 \<or> c = 0xB9
      else u_isdigit u c)"

definition decimal_char :: "unicode \<Rightarrow> nat \<Rightarrow> nat option" where
  "decimal_char u c =
     (if c < 256 then (if 0x30 \<le> c \<and> c \<le> 0x39 then Some (c - 0x30) else None)
      else u_decimal u c)"

definition isdigit :: "unicode \<Rightarrow> pystr \<Rightarrow> bool" where
  "isdigit u s \<longleftrightarrow> s \<noteq> [] \<and> list_all (isdigit_char u) s"

definition py_int :: "unicode \<Rightarrow> pystr \<Rightarrow> int option" where
  "py_int u s =
     (if s \<noteq> [] \<and> list_all (\<lambda>c. decimal_char u c \<noteq> None) s
      then Some (int (foldl (\<lambda>acc c. acc * 10 + the (decimal_char u c)) 0 s))
      else None)"

definition lower_latin1 :: "nat \<Rightarrow> nat" where
  "lower_latin1 c =
     (if (0x41 \<le> c \<and> c \<le> 0x5A) \<or> (0xC0 \<le> c \<and> c \<le> 0xDE \<and> c \<noteq> 0xD7) then c + 32 else c)"

definition lower :: "unicode \<Rightarrow> pystr \<Rightarrow> pystr" where
  "lower u s = (if list_all (\<lambda>c. c < 256) s then map lower_latin1 s else u_lower u s)"

section \<open>The environment and the state\<close>

text \<open>
  The two programs, \<open>rb3_player_nogui.py\<close> and \<open>rb3_gui_player.py\<close>, share the
  classes modelled here and differ in a few places, selected by \<open>variant\<close>. The
  environment holds what stays fixed while the listener runs: the settings (module
  constants in the one program, the settings dictionary in the other), whether the
  YouTube client and the VLC executable were found, and the collaborators as
  functions: the search request, the stream extractor, the launch of VLC, and the
  element \<open>set.pop\<close> removes, which Python leaves open. The delay is in
  milliseconds; only its sign decides what the program does.
\<close>

datatype variant = NoGui | Gui

record item =
  videoId :: pystr
  title :: pystr
  channelTitle :: pystr

datatype search_reply = Items "item list" | HttpError

datatype popen_result = Running | Exited | Raises

record env =
  variant :: variant
  sync_video_to_song :: bool
  preload_videos :: bool
  auto_quit_on_menu :: bool
  video_start_delay :: int
  youtube :: bool
  vlc_path :: bool
  tables :: unicode
  api_search :: "pystr \<Rightarrow> search_reply"
  get_stream_url :: "pystr \<Rightarrow> pystr option"
  popen :: "pystr \<Rightarrow> popen_result"
  popen_simple_raises :: "pystr \<Rightarrow> bool"
  pop_choice :: "pystr list \<Rightarrow> nat"

text \<open>
  What the program does to the outside is recorded in a trace: the two messages of
  the state machine, and the calls of the collaborators. The program without a
  window prints its messages; the program with the window hands them to
  \<open>gui_callback\<close>, which \<open>RB3VideoPlayerGUI.start_listener\<close> always installs.
\<close>

datatype action =
    SongStarting
  | ReturnedToMenus
  | StopCurrentVideo
  | SearchVideo pystr pystr
  | ApiQuery pystr
  | GetStreamUrl pystr
  | Popen pystr
  | PopenSimple pystr
  | Sleep int
  | AlreadyPlayed pystr

text \<open>
  The fields of \<open>RB3EventListener\<close>, with \<open>YouTubeSearcher.search_cache\<close> (a
  dictionary, as an association list with the newest binding first) and
  \<open>VLCPlayer.played_videos\<close> (a set, as the list of its elements).
\<close>

record state =
  current_song :: pystr
  current_artist :: pystr
  game_state :: int
  pending_video :: "(pystr \<times> pystr \<times> pystr \<times> pystr) option"
  search_cache :: "(pystr \<times> pystr) list"
  played_videos :: "pystr list"
  trace :: "action list"

definition say :: "action \<Rightarrow> state \<Rightarrow> state" where
  "say a s = s\<lparr>trace := trace s @ [a]\<rparr>"

text \<open>\<open>if x:\<close> on an optional string: neither \<open>None\<close> nor empty.\<close>

definition truthy :: "pystr option \<Rightarrow> bool" where
  "truthy r = (case r of None \<Rightarrow> False | Some v \<Rightarrow> v \<noteq> [])"

section \<open>VLCPlayer\<close>

definition set_add :: "'a \<Rightarrow> 'a list \<Rightarrow> 'a list" where
  "set_add x xs = (if x \<in> set xs then xs else xs @ [x])"

definition set_pop :: "nat \<Rightarrow> 'a list \<Rightarrow> 'a list" where
  "set_pop i xs = take (i mod length xs) xs @ drop (Suc (i mod length xs)) xs"

definition stop_current_video :: "state \<Rightarrow> state" where
  "stop_current_video s = say StopCurrentVideo s"

text \<open>
  \<open>self.played_videos.add(video_id)\<close>, then \<open>pop()\<close> when more than ten are held.
\<close>

definition remember_video :: "env \<Rightarrow> pystr \<Rightarrow> state \<Rightarrow> state" where
  "remember_video e video_id s =
     (let pv = set_add video_id (played_videos s)
      in s\<lparr>played_videos := (if length pv > 10 then set_pop (pop_choice e pv) pv else pv)\<rparr>)"

text \<open>
  \<open>VLCPlayer.play_video\<close>. Only the program with the window asks whether the video
  was played before. A launch that raises leaves the set as it was; a VLC that exits
  at once is launched again with the bare command.
\<close>

definition play_video :: "env \<Rightarrow> pystr \<Rightarrow> pystr \<Rightarrow> pystr \<Rightarrow> pystr \<Rightarrow> state \<Rightarrow> state" where
  "play_video e video_url video_id artist song s =
     (if \<not> vlc_path e then s
      else if variant e = Gui \<and> video_id \<in> set (played_videos s)
      then say (AlreadyPlayed video_id) s
      else
        let s1 = say (Popen video_url) (stop_current_video s)
        in (case popen e video_url of
              Raises \<Rightarrow> s1
            | Running \<Rightarrow> remember_video e video_id s1
            | Exited \<Rightarrow>
                let s2 = say (PopenSimple video_url) s1
                in if popen_simple_raises e video_url then s2
                   else remember_video e video_id s2))"

section \<open>RB3EventListener: the state machine\<close>

definition start_pending_video :: "env \<Rightarrow> state \<Rightarrow> state" where
  "start_pending_video e s =
     (case pending_video s of
        None \<Rightarrow> s
      | Some (stream_url, video_id, artist, song) \<Rightarrow>
          let s1 = (if video_start_delay e > 0 then say (Sleep (video_start_delay e)) s else s);
              s2 = play_video e stream_url video_id artist song s1
          in s2\<lparr>pending_video := None\<rparr>)"

text \<open>
  \<open>int(packet_data) if packet_data.isdigit() else ord(packet_data[0]) if packet_data
  else 0\<close>; \<open>None\<close> when \<open>int\<close> raises.
\<close>

definition new_state_of :: "unicode \<Rightarrow> pystr \<Rightarrow> int option" where
  "new_state_of u pdata =
     (if isdigit u pdata then py_int u pdata
      else if pdata \<noteq> [] then Some (int (hd pdata))
      else Some 0)"

text \<open>
  \<open>handle_state_change\<close>. The whole body is inside \<open>try\<close>: when the state value
  cannot be computed, nothing is changed.
\<close>

definition handle_state_change :: "env \<Rightarrow> pystr \<Rightarrow> state \<Rightarrow> state" where
  "handle_state_change e pdata s =
     (case new_state_of (tables e) pdata of
        None \<Rightarrow> s
      | Some new_state \<Rightarrow>
          let s1 =
            (if game_state s = 0 \<and> new_state = 1 then
               let s' = say SongStarting s
               in if pending_video s' \<noteq> None \<and> sync_video_to_song e
                  then start_pending_video e s' else s'
             else if game_state s = 1 \<and> new_state = 0 then
               let s' = say ReturnedToMenus s;
                   s'' = (if auto_quit_on_menu e then stop_current_video s' else s')
               in s''\<lparr>pending_video := None\<rparr>
             else s)
          in s1\<lparr>game_state := new_state\<rparr>)"

section \<open>YouTubeSearcher\<close>

subsection \<open>The three patterns of \<open>clean_search_terms\<close>\<close>

text \<open>
  Under \<open>re.IGNORECASE\<close> a letter of the pattern matches itself, its capital and the
  few other characters the regular expression engine folds to it: the dotted capital
  and the dotless small i for \<open>i\<close>, the long s for \<open>s\<close>, the Kelvin sign for \<open>k\<close>.
  The pattern letter is given in lower case; other pattern characters match
  themselves.
\<close>

definition ci_char :: "nat \<Rightarrow> nat \<Rightarrow> bool" where
  "ci_char p c \<longleftrightarrow>
     c = p \<or> (0x61 \<le> p \<and> p \<le> 0x7A \<and> c + 32 = p) \<or>
     (p = 0x69 \<and> (c = 0x130 \<or> c = 0x131)) \<or> (p = 0x73 \<and> c = 0x17F) \<or>
     (p = 0x6B \<and> c = 0x212A)"

text \<open>A literal word matched at the head of the text: what follows the match.\<close>

fun match_word :: "pystr \<Rightarrow> pystr \<Rightarrow> pystr option" where
  "match_word [] s = Some s"
| "match_word (p # ps) [] = None"
| "match_word (p # ps) (c # cs) = (if ci_char p c then match_word ps cs else None)"

text \<open>
  \<open>\s*\([^)]*\)\s*\<close> matched at the head of the text. The greedy \<open>\s*\<close> takes
  the whole run of white space, and giving some of it back cannot help, since the
  next pattern character is not white space; likewise \<open>[^)]*\<close> runs to the first
  closing parenthesis, and the match fails when there is none.
\<close>

definition match_paren :: "pystr \<Rightarrow> pystr option" where
  "match_paren s =
     (case dropWhile py_isspace s of
        [] \<Rightarrow> None
      | c # r \<Rightarrow>
          if c = 0x28 then
            (case dropWhile (\<lambda>c. c \<noteq> 0x29) r of
               [] \<Rightarrow> None
             | _ # r2 \<Rightarrow> Some (dropWhile py_isspace r2))
          else None)"

text \<open>
  \<open>\s*-\s*(Live|Acoustic|Demo|Remix).*\<close> with \<open>re.IGNORECASE\<close>, matched at the
  head of the text; \<open>.\<close> matches every character but the newline.
\<close>

definition modifiers :: "pystr list" where
  "modifiers = [str ''live'', str ''acoustic'', str ''demo'', str ''remix'']"

fun first_match :: "pystr list \<Rightarrow> pystr \<Rightarrow> pystr option" where
  "first_match [] s = None"
| "first_match (w # ws) s =
     (case match_word w s of Some r \<Rightarrow> Some r | None \<Rightarrow> first_match ws s)"

definition match_modifier :: "pystr \<Rightarrow> pystr option" where
  "match_modifier s =
     (case dropWhile py_isspace s of
        [] \<Rightarrow> None
      | c # r \<Rightarrow>
          if c = 0x2D then
            (case first_match modifiers (dropWhile py_isspace r) of
               None \<Rightarrow> None
             | Some r2 \<Rightarrow> Some (dropWhile (\<lambda>c. c \<noteq> 0x0A) r2))
          else None)"

text \<open>
  \<open>\s+(?:feat\.|ft\.|featuring)\s+\<close> with \<open>re.IGNORECASE\<close>: does it match at the
  head of the text? White space, one of the three words, white space again.
\<close>

definition separators :: "pystr list" where
  "separators = [str ''feat.'', str ''ft.'', str ''featuring'']"

definition starts_with_space :: "pystr \<Rightarrow> bool" where
  "starts_with_space s = (case s of [] \<Rightarrow> False | c # _ \<Rightarrow> py_isspace c)"

definition match_feat :: "pystr \<Rightarrow> bool" where
  "match_feat s \<longleftrightarrow>
     starts_with_space s \<and>
     list_ex (\<lambda>w. case match_word w (dropWhile py_isspace s) of
                     None \<Rightarrow> False
                   | Some r \<Rightarrow> starts_with_space r) separators"

lemma length_match_word: "match_word w s = Some r \<Longrightarrow> length r \<le> length s"
  by (induction w s rule: match_word.induct) (auto split: if_splits)

lemma length_first_match: "first_match ws s = Some r \<Longrightarrow> length r \<le> length s"
  by (induction ws) (auto split: option.splits dest: length_match_word)

lemma length_match_paren: "match_paren s = Some r \<Longrightarrow> length r < length s"
proof -
  assume m: "match_paren s = Some r"
  then obtain c t where t: "dropWhile py_isspace s = c # t"
    by (auto simp: match_paren_def split: list.splits)
  with m obtain d t2 where t2: "dropWhile (\<lambda>c. c \<noteq> 0x29) t = d # t2"
    and r: "r = dropWhile py_isspace t2"
    by (auto simp: match_paren_def split: list.splits if_splits)
  have "length r \<le> length t2" using r by (simp add: length_dropWhile_le)
  also have "length t2 < length (dropWhile (\<lambda>c. c \<noteq> 0x29) t)" using t2 by simp
  also have "\<dots> \<le> length t" by (rule length_dropWhile_le)
  also have "length t < length (dropWhile py_isspace s)" using t by simp
  also have "\<dots> \<le> length s" by (rule length_dropWhile_le)
  finally show ?thesis .
qed

lemma length_match_modifier: "match_modifier s = Some r \<Longrightarrow> length r < length s"
proof -
  assume m: "match_modifier s = Some r"
  then obtain c t where t: "dropWhile py_isspace s = c # t"
    by (auto simp: match_modifier_def split: list.splits)
  with m obtain r2 where r2: "first_match modifiers (dropWhile py_isspace t) = Some r2"
    and r: "r = dropWhile (\<lambda>c. c \<noteq> 0x0A) r2"
    by (auto simp: match_modifier_def split: list.splits if_splits option.splits)
  have "length r \<le> length r2" using r by (simp add: length_dropWhile_le)
  also have "\<dots> \<le> length (dropWhile py_isspace t)" using r2 by (rule length_first_match)
  also have "\<dots> \<le> length t" by (rule length_dropWhile_le)
  also have "length t < length (dropWhile py_isspace s)" using t by simp
  also have "\<dots> \<le> length s" by (rule length_dropWhile_le)
  finally show ?thesis .
qed

text \<open>
  \<open>re.sub(pattern, '', text)\<close> for the two patterns: the text is scanned from the
  left; where the pattern matches, the match is left out and the scan goes on behind
  it; elsewhere the character is kept. Neither pattern matches the empty string.
\<close>

function sub_paren :: "pystr \<Rightarrow> pystr" where
  "sub_paren [] = []"
| "sub_paren (c # cs) =
     (case match_paren (c # cs) of
        Some r \<Rightarrow> sub_paren r
      | None \<Rightarrow> c # sub_paren cs)"
  by pat_completeness auto
termination
  by (relation "measure length") (auto dest: length_match_paren)

function sub_modifier :: "pystr \<Rightarrow> pystr" where
  "sub_modifier [] = []"
| "sub_modifier (c # cs) =
     (case match_modifier (c # cs) of
        Some r \<Rightarrow> sub_modifier r
      | None \<Rightarrow> c # sub_modifier cs)"
  by pat_completeness auto
termination
  by (relation "measure length") (auto dest: length_match_modifier)

text \<open>\<open>re.split(pattern, artist)[0]\<close>: the text before the leftmost match.\<close>

fun split_feat :: "pystr \<Rightarrow> pystr" where
  "split_feat [] = []"
| "split_feat (c # cs) = (if match_feat (c # cs) then [] else c # split_feat cs)"

definition clean_search_terms :: "pystr \<Rightarrow> pystr \<Rightarrow> pystr \<times> pystr" where
  "clean_search_terms artist song =
     (let clean_song = strip (sub_modifier (sub_paren song));
          clean_artist = strip (split_feat artist)
      in (clean_artist, clean_song))"

subsection \<open>\<open>search_video\<close>\<close>

text \<open>
  The test on one search result: \<open>(has_song_in_title and has_artist_in_title) or
  is_official\<close>, all three on lower-cased text.
\<close>

definition is_match :: "unicode \<Rightarrow> pystr \<Rightarrow> pystr \<Rightarrow> item \<Rightarrow> bool" where
  "is_match u clean_artist clean_song it =
     (let video_title = lower u (title it);
          video_channel = lower u (channelTitle it);
          is_official = list_ex (\<lambda>w. contains w video_channel)
                          [str ''official'', str ''records'', str ''music'', lower u clean_artist];
          has_song_in_title = contains (lower u clean_song) video_title;
          has_artist_in_title = contains (lower u clean_artist) video_title
      in (has_song_in_title \<and> has_artist_in_title) \<or> is_official)"

definition search_queries :: "pystr \<Rightarrow> pystr \<Rightarrow> pystr list" where
  "search_queries clean_artist clean_song =
     [clean_artist @ str '' '' @ clean_song @ str '' official music video'',
      clean_artist @ str '' '' @ clean_song @ str '' music video'',
      clean_artist @ str '' '' @ clean_song @ str '' official'',
      clean_artist @ str '' '' @ clean_song]"

text \<open>
  A call returns a value or raises. The loop over the queries: each query is sent;
  the first result that passes the test is taken, else the first result of a
  non-empty answer; an empty answer leads to the next query. A found identifier is
  written into the cache.
\<close>

datatype 'a outcome = Returned 'a | Raised

fun run_queries ::
  "env \<Rightarrow> pystr \<Rightarrow> pystr \<Rightarrow> pystr \<Rightarrow> pystr list \<Rightarrow> state \<Rightarrow> pystr option outcome \<times> state" where
  "run_queries e clean_artist clean_song search_key [] s = (Returned None, s)"
| "run_queries e clean_artist clean_song search_key (query # queries) s =
     (let s1 = say (ApiQuery query) s
      in case api_search e query of
           HttpError \<Rightarrow> (Raised, s1)
         | Items items \<Rightarrow>
             (case find (is_match (tables e) clean_artist clean_song) items of
                Some it \<Rightarrow>
                  (Returned (Some (videoId it)),
                   s1\<lparr>search_cache := (search_key, videoId it) # search_cache s1\<rparr>)
              | None \<Rightarrow>
                  if items \<noteq> []
                  then (Returned (Some (videoId (hd items))),
                        s1\<lparr>search_cache := (search_key, videoId (hd items)) # search_cache s1\<rparr>)
                  else run_queries e clean_artist clean_song search_key queries s1))"

text \<open>
  \<open>search_video\<close>. An error of the search request is turned into \<open>None\<close> by the
  program without a window and raised again by the program with one.
\<close>

definition search_video :: "env \<Rightarrow> pystr \<Rightarrow> pystr \<Rightarrow> state \<Rightarrow> pystr option outcome \<times> state" where
  "search_video e artist song s0 =
     (let s = say (SearchVideo artist song) s0
      in if \<not> youtube e then (Returned None, s)
         else
           let (clean_artist, clean_song) = clean_search_terms artist song;
               search_key = lower (tables e) clean_artist @ str '' - '' @ lower (tables e) clean_song
           in case map_of (search_cache s) search_key of
                Some video_id \<Rightarrow> (Returned (Some video_id), s)
              | None \<Rightarrow>
                  (case run_queries e clean_artist clean_song search_key
                          (search_queries clean_artist clean_song) s of
                     (Raised, s') \<Rightarrow> (if variant e = NoGui then Returned None else Raised, s')
                   | (Returned r, s') \<Rightarrow> (Returned r, s')))"

section \<open>RB3EventListener: the playback pipeline\<close>

text \<open>
  \<open>prepare_video\<close>. When the search raises, the \<open>except\<close> clause is entered and the
  two lines that reset the song and the artist are not reached.
\<close>

definition prepare_video :: "env \<Rightarrow> state \<Rightarrow> state" where
  "prepare_video e s =
     (case search_video e (current_artist s) (current_song s) s of
        (Raised, s1) \<Rightarrow> s1
      | (Returned video_id, s1) \<Rightarrow>
          let s2 =
            (if truthy video_id then
               let s1' = say (GetStreamUrl (the video_id)) s1;
                   stream_url = get_stream_url e (the video_id)
               in if truthy stream_url then
                    let s3 = s1'\<lparr>pending_video :=
                                  Some (the stream_url, the video_id, current_artist s1', current_song s1')\<rparr>
                    in if game_state s3 = 1 then start_pending_video e s3 else s3
                  else s1'
             else s1)
          in s2\<lparr>current_song := [], current_artist := []\<rparr>)"

definition play_current_song :: "env \<Rightarrow> state \<Rightarrow> state" where
  "play_current_song e s =
     (case search_video e (current_artist s) (current_song s) s of
        (Raised, s1) \<Rightarrow> s1
      | (Returned video_id, s1) \<Rightarrow>
          let s2 =
            (if truthy video_id then
               let s1' = say (GetStreamUrl (the video_id)) s1;
                   stream_url = get_stream_url e (the video_id)
               in if truthy stream_url
                  then play_video e (the stream_url) (the video_id) (current_artist s1') (current_song s1') s1'
                  else s1'
             else s1)
          in s2\<lparr>current_song := [], current_artist := []\<rparr>)"

text \<open>
  Which of the two the listener calls once song and artist are known:
  \<open>SYNC_VIDEO_TO_SONG and PRELOAD_VIDEOS\<close> in the one program,
  \<open>settings.get('sync_video_to_song', True)\<close> in the other.
\<close>

definition preloads :: "env \<Rightarrow> bool" where
  "preloads e =
     (case variant e of
        NoGui \<Rightarrow> sync_video_to_song e \<and> preload_videos e
      | Gui \<Rightarrow> sync_video_to_song e)"

text \<open>
  The dispatch of \<open>process_packet\<close> on the event type, and the check that follows
  it for every event.
\<close>

definition dispatch :: "env \<Rightarrow> packet \<Rightarrow> state \<Rightarrow> state" where
  "dispatch e p s =
     (if packet_type p = RB3E_EVENT_ALIVE then s
      else if packet_type p = RB3E_EVENT_STATE then handle_state_change e (packet_data p) s
      else if packet_type p = RB3E_EVENT_SONG_NAME then s\<lparr>current_song := packet_data p\<rparr>
      else if packet_type p = RB3E_EVENT_SONG_ARTIST then s\<lparr>current_artist := packet_data p\<rparr>
      else s)"

definition process_event :: "env \<Rightarrow> packet \<Rightarrow> state \<Rightarrow> state" where
  "process_event e p s =
     (let s1 = dispatch e p s
      in if current_song s1 \<noteq> [] \<and> current_artist s1 \<noteq> []
         then (if preloads e then prepare_video e s1 else play_current_song e s1)
         else s1)"

definition process_packet :: "env \<Rightarrow> byte list \<Rightarrow> state \<Rightarrow> state" where
  "process_packet e data s =
     (case decode data of
        None \<Rightarrow> s
      | Some p \<Rightarrow> process_event e p s)"

text \<open>The listener as \<open>__init__\<close> leaves it, and a run over a list of datagrams.\<close>

definition init :: state where
  "init = \<lparr>current_song = [], current_artist = [], game_state = 0, pending_video = None,
           search_cache = [], played_videos = [], trace = []\<rparr>"

definition run :: "env \<Rightarrow> byte list list \<Rightarrow> state \<Rightarrow> state" where
  "run e datagrams s = foldl (\<lambda>s data. process_packet e data s) s datagrams"

section \<open>A sample environment\<close>

text \<open>
  An environment for the closed examples below: both synchronisation settings on,
  VLC and the YouTube client present, every video with a stream, every launch of
  VLC successful. The program variant and the search request are its parameters.
\<close>

definition sample_env :: "variant \<Rightarrow> (pystr \<Rightarrow> search_reply) \<Rightarrow> env" where
  "sample_env v search =
     \<lparr>variant = v, sync_video_to_song = True, preload_videos = True, auto_quit_on_menu = True,
      video_start_delay = 0, youtube = True, vlc_path = True,
      tables = \<lparr>u_isdigit = (\<lambda>c. False), u_decimal = (\<lambda>c. None), u_lower = (\<lambda>s. s)\<rparr>,
      api_search = search,
      get_stream_url = (\<lambda>video_id. Some (str ''stream:'' @ video_id)),
      popen = (\<lambda>url. Running), popen_simple_raises = (\<lambda>url. False),
      pop_choice = (\<lambda>pv. 0)\<rparr>"

section \<open>Observations on the trace\<close>

text \<open>
  The messages of the state machine within a trace, and the relation between two
  states that agree on the game state and on these messages.
\<close>

definition triggers :: "action list \<Rightarrow> action list" where
  "triggers tr = filter (\<lambda>a. a = SongStarting \<or> a = ReturnedToMenus) tr"

definition quiet :: "state \<Rightarrow> state \<Rightarrow> bool" where
  "quiet s s' \<longleftrightarrow> game_state s' = game_state s \<and> triggers (trace s') = triggers (trace s)"

text \<open>
  The launches of VLC within a trace, and the invariant of the set of played videos:
  at most ten, none twice.
\<close>

definition launches :: "action list \<Rightarrow> action list" where
  "launches tr = filter (\<lambda>a. case a of Popen url \<Rightarrow> True | PopenSimple url \<Rightarrow> True | _ \<Rightarrow> False) tr"

definition bounded :: "state \<Rightarrow> bool" where
  "bounded s \<longleftrightarrow> length (played_videos s) \<le> 10 \<and> distinct (played_videos s)"

text \<open>How often \<open>search_video\<close> was called within a trace.\<close>

definition searches :: "action list \<Rightarrow> nat" where
  "searches tr = length (filter (\<lambda>a. case a of SearchVideo artist song \<Rightarrow> True | _ \<Rightarrow> False) tr)"

section \<open>The state value as the specification words it\<close>

text \<open>
  The specification's rule for the state value, for comparison with \<open>new_state_of\<close>:
  the integer value of a non-empty payload of decimal digits, else the code of the
  first character of a non-empty payload, else 0.
\<close>

definition all_decimal :: "unicode \<Rightarrow> pystr \<Rightarrow> bool" where
  "all_decimal u s \<longleftrightarrow> s \<noteq> [] \<and> list_all (\<lambda>c. decimal_char u c \<noteq> None) s"

definition decimal_value :: "unicode \<Rightarrow> pystr \<Rightarrow> int" where
  "decimal_value u s = int (foldl (\<lambda>acc c. acc * 10 + the (decimal_char u c)) 0 s)"

definition state_value_spec :: "unicode \<Rightarrow> pystr \<Rightarrow> int" where
  "state_value_spec u s =
     (if all_decimal u s then decimal_value u s
      else if s \<noteq> [] then int (hd s)
      else 0)"

section \<open>The selection among the results\<close>

text \<open>
  The result \<open>run_queries\<close> takes from a non-empty answer: the first that passes
  \<open>is_match\<close>, else the first of all. Beside it the rule as the specification words
  it, for comparison: the title contains the song and the artist, or the channel
  contains "official", "records", "music" or the artist, on the texts as they are.
\<close>

definition selected :: "unicode \<Rightarrow> pystr \<Rightarrow> pystr \<Rightarrow> item list \<Rightarrow> item" where
  "selected u clean_artist clean_song items =
     (case find (is_match u clean_artist clean_song) items of Some it \<Rightarrow> it | None \<Rightarrow> hd items)"

definition is_match_spec :: "pystr \<Rightarrow> pystr \<Rightarrow> item \<Rightarrow> bool" where
  "is_match_spec clean_artist clean_song it \<longleftrightarrow>
     (contains clean_song (title it) \<and> contains clean_artist (title it)) \<or>
     list_ex (\<lambda>w. contains w (channelTitle it))
       [str ''official'', str ''records'', str ''music'', clean_artist]"

definition selected_spec :: "pystr \<Rightarrow> pystr \<Rightarrow> item list \<Rightarrow> item" where
  "selected_spec clean_artist clean_song items =
     (case find (is_match_spec clean_artist clean_song) items of Some it \<Rightarrow> it | None \<Rightarrow> hd items)"

section \<open>The normalisation and the plan of queries: auxiliary notions\<close>

text \<open>
  The queries sent within a trace. Then the truncation of the artist as the
  specification words it, for comparison with \<open>split_feat\<close>: the text is cut at
  the first place where one of the three words occurs, in any case, whatever
  stands around it.
\<close>

definition queries :: "action list \<Rightarrow> pystr list" where
  "queries tr = concat (map (\<lambda>a. case a of ApiQuery q \<Rightarrow> [q] | _ \<Rightarrow> []) tr)"



section \<open>The packet decoder: malformed packets and totality\<close>

text \<open>
  Claim C4. A datagram is dropped as malformed exactly when it is shorter than 8
  bytes, or its first four bytes, read big-endian, are not \<open>0x52423345\<close>, or its
  version byte is not 0. In particular every datagram shorter than 8 bytes is
  dropped. A dropped datagram yields no packet, and \<open>process_packet\<close>, a total
  function, returns the state it was given: nothing is raised and nothing changes.
\<close>

theorem decode_malformed:
  "(decode data = None \<longleftrightarrow>
      length data < 8 \<or> unpack_be (slice 0 4 data) \<noteq> 0x52423345 \<or> unat (data ! 4) \<noteq> 0)
   \<and> (length data < 8 \<longrightarrow> decode data = None)
   \<and> (decode data = None \<longrightarrow> process_packet e data s = s)"
  by (simp add: decode_def process_packet_def Let_def RB3E_EVENTS_MAGIC_def RB3E_EVENTS_PROTOCOL_def)

theorem decode_malformed_witness:
  "decode [0x52, 0x42, 0x33] = None
   \<and> process_packet (sample_env Gui (\<lambda>q. Items [])) [0x52, 0x42, 0x33] init = init"
  using decode_malformed [of "[0x52, 0x42, 0x33]" "sample_env Gui (\<lambda>q. Items [])" init]
  by simp

text \<open>
  Claim C9. A datagram of at least 8 bytes with the right magic and version is
  decoded whatever its length byte says: the payload is cut from the bytes that
  are there, at most as many as declared, and a declared length of 0 gives the
  empty payload.
\<close>

theorem decode_total:
  assumes "8 \<le> length data"
    and "unpack_be (slice 0 4 data) = RB3E_EVENTS_MAGIC"
    and "unat (data ! 4) = RB3E_EVENTS_PROTOCOL"
  shows "\<exists>p. decode data = Some p
           \<and> packet_type p = unat (data ! 5)
           \<and> packet_data p = utf8_decode Ignore (rstrip_nul (take (unat (data ! 6)) (drop 8 data)))
           \<and> length (take (unat (data ! 6)) (drop 8 data)) = min (unat (data ! 6)) (length data - 8)
           \<and> (unat (data ! 6) = 0 \<longrightarrow> packet_data p = [])"
  using assms by (simp add: decode_def Let_def slice_def rstrip_nul_def min.commute)

theorem decode_total_witness:
  "\<exists>p. decode [0x52, 0x42, 0x33, 0x45, 0, 3, 200, 1, 0x41, 0x42, 0] = Some p
      \<and> packet_type p = 3 \<and> packet_data p = [0x41, 0x42]"
  using decode_total [of "[0x52, 0x42, 0x33, 0x45, 0, 3, 200, 1, 0x41, 0x42, 0]"]
  by (simp add: unpack_be_def slice_def RB3E_EVENTS_MAGIC_def RB3E_EVENTS_PROTOCOL_def
        rstrip_nul_def)

section \<open>What the playback pipeline leaves alone\<close>




lemma quiet_remember: "quiet s (remember_video e v s)"
  by (simp add: quiet_def remember_video_def Let_def)










section \<open>The state machine\<close>

lemma new_state_of_samples:
  "new_state_of u (str ''1'') = Some 1"
  "new_state_of u (str ''0'') = Some 0"
  "new_state_of u (str ''A'') = Some 65"
  "new_state_of u [] = Some 0"
  "new_state_of u [1] = Some 1"
  "new_state_of u [Suc 0] = Some 1"
  by (simp_all add: new_state_of_def isdigit_def isdigit_char_def py_int_def decimal_char_def str_def)



lemma handle_other:
  assumes "new_state_of (tables e) pdata = Some v"
    and "\<not> (game_state s = 0 \<and> v = 1)" and "\<not> (game_state s = 1 \<and> v = 0)"
  shows "handle_state_change e pdata s = s\<lparr>game_state := v\<rparr>"
  using assms by (auto simp add: handle_state_change_def Let_def)




lemma decode_state_datagrams:
  "decode [0x52, 0x42, 0x33, 0x45, 0, 1, 1, 0, 1] = Some \<lparr>packet_type = 1, packet_data = [1]\<rparr>"
  "decode [0x52, 0x42, 0x33, 0x45, 0, 1, 1, 0, 0] = Some \<lparr>packet_type = 1, packet_data = []\<rparr>"
  "decode [0x52, 0x42, 0x33, 0x45, 0, 1, 1, 0, 0x41] = Some \<lparr>packet_type = 1, packet_data = [0x41]\<rparr>"
  by (simp_all add: decode_def unpack_be_def slice_def RB3E_EVENTS_MAGIC_def RB3E_EVENTS_PROTOCOL_def
        rstrip_nul_def)



text \<open>
  Claim C10. When the stored state is not 0, a State event that decodes to 1 emits
  nothing and starts nothing: the trace and the pending video stay as they are, and
  1 is stored. This is so for the handler and, as long as song and artist are not
  both known, for the whole processing of the event. For example, after the payload
  "A" the stored state is 65, and a following payload "1" starts nothing, whatever
  the state was before.
\<close>

theorem only_menu_to_game_starts:
  "(game_state s \<noteq> 0 \<and> new_state_of (tables e) pdata = Some 1 \<longrightarrow>
      handle_state_change e pdata s = s\<lparr>game_state := 1\<rparr>
      \<and> trace (handle_state_change e pdata s) = trace s
      \<and> pending_video (handle_state_change e pdata s) = pending_video s
      \<and> game_state (handle_state_change e pdata s) = 1)
   \<and> (game_state s \<noteq> 0 \<and> packet_type p = RB3E_EVENT_STATE
        \<and> new_state_of (tables e) (packet_data p) = Some 1
        \<and> \<not> (current_song s \<noteq> [] \<and> current_artist s \<noteq> []) \<longrightarrow>
      process_event e p s = s\<lparr>game_state := 1\<rparr>)
   \<and> game_state (handle_state_change e (str ''A'') s) = 65
   \<and> handle_state_change e (str ''1'') (handle_state_change e (str ''A'') s) = s\<lparr>game_state := 1\<rparr>"
proof (intro conjI impI)
  assume a: "game_state s \<noteq> 0 \<and> new_state_of (tables e) pdata = Some 1"
  then show h: "handle_state_change e pdata s = s\<lparr>game_state := 1\<rparr>"
    using handle_other [of e pdata 1 s] by simp
  show "trace (handle_state_change e pdata s) = trace s"
    and "pending_video (handle_state_change e pdata s) = pending_video s"
    and "game_state (handle_state_change e pdata s) = 1"
    by (simp_all add: h)
next
  assume a: "game_state s \<noteq> 0 \<and> packet_type p = RB3E_EVENT_STATE
        \<and> new_state_of (tables e) (packet_data p) = Some 1
        \<and> \<not> (current_song s \<noteq> [] \<and> current_artist s \<noteq> [])"
  then have "handle_state_change e (packet_data p) s = s\<lparr>game_state := 1\<rparr>"
    using handle_other [of e "packet_data p" 1 s] by simp
  with a show "process_event e p s = s\<lparr>game_state := 1\<rparr>"
    by (auto simp: process_event_def dispatch_def Let_def RB3E_EVENT_STATE_def RB3E_EVENT_ALIVE_def)
next
  have 1: "handle_state_change e (str ''A'') s = s\<lparr>game_state := 65\<rparr>"
    using handle_other [of e "str ''A''" 65 s] by (simp add: new_state_of_samples)
  then show "game_state (handle_state_change e (str ''A'') s) = 65" by simp
  show "handle_state_change e (str ''1'') (handle_state_change e (str ''A'') s) = s\<lparr>game_state := 1\<rparr>"
    using handle_other [of e "str ''1''" 1 "s\<lparr>game_state := 65\<rparr>"]
    by (simp add: 1 new_state_of_samples)
qed

theorem only_menu_to_game_starts_witness:
  "handle_state_change (sample_env Gui (\<lambda>q. Items [])) [1]
     (init\<lparr>game_state := 65, pending_video := Some (str ''u'', str ''v'', str ''a'', str ''s'')\<rparr>)
   = init\<lparr>game_state := 1, pending_video := Some (str ''u'', str ''v'', str ''a'', str ''s'')\<rparr>"
  using only_menu_to_game_starts [of
      "init\<lparr>game_state := 65, pending_video := Some (str ''u'', str ''v'', str ''a'', str ''s'')\<rparr>"
      "sample_env Gui (\<lambda>q. Items [])" "[1]" "\<lparr>packet_type = 1, packet_data = [1]\<rparr>"]
  by (simp add: new_state_of_samples init_def)

section \<open>Evaluating the sample environment\<close>

lemma sample_env_simps:
  "variant (sample_env v f) = v" "sync_video_to_song (sample_env v f)" "preload_videos (sample_env v f)"
  "auto_quit_on_menu (sample_env v f)" "video_start_delay (sample_env v f) = 0"
  "youtube (sample_env v f)" "vlc_path (sample_env v f)"
  "api_search (sample_env v f) = f"
  "get_stream_url (sample_env v f) x = Some (str ''stream:'' @ x)"
  "popen (sample_env v f) x = Running" "popen_simple_raises (sample_env v f) x = False"
  "pop_choice (sample_env v f) pv = 0"
  "tables (sample_env v f) = \<lparr>u_isdigit = (\<lambda>c. False), u_decimal = (\<lambda>c. None), u_lower = (\<lambda>s. s)\<rparr>"
  by (simp_all add: sample_env_def)

lemma clean_AB: "clean_search_terms [0x41] [0x42] = ([0x41], [0x42])"
  by (simp add: clean_search_terms_def strip_def match_paren_def match_modifier_def py_isspace_def
      match_feat_def starts_with_space_def)

lemma decode_AB:
  "decode [0x52, 0x42, 0x33, 0x45, 0, 3, 1, 0, 0x41] = Some \<lparr>packet_type = 3, packet_data = [0x41]\<rparr>"
  "decode [0x52, 0x42, 0x33, 0x45, 0, 2, 1, 0, 0x42] = Some \<lparr>packet_type = 2, packet_data = [0x42]\<rparr>"
  "decode [0x52, 0x42, 0x33, 0x45, 0, 0, 0, 0] = Some \<lparr>packet_type = 0, packet_data = []\<rparr>"
  by (simp_all add: decode_def unpack_be_def slice_def RB3E_EVENTS_MAGIC_def RB3E_EVENTS_PROTOCOL_def
        rstrip_nul_def)

lemmas eval_defs = run_def process_packet_def process_event_def dispatch_def
  RB3E_EVENT_ALIVE_def RB3E_EVENT_STATE_def RB3E_EVENT_SONG_NAME_def RB3E_EVENT_SONG_ARTIST_def
  handle_state_change_def new_state_of_samples prepare_video_def play_current_song_def
  search_video_def search_queries_def is_match_def truthy_def start_pending_video_def
  play_video_def stop_current_video_def remember_video_def set_add_def preloads_def
  lower_def lower_latin1_def say_def Let_def init_def sample_env_simps str_def launches_def
  decode_AB decode_state_datagrams clean_AB

section \<open>The set of played videos\<close>

lemma set_add_props:
  "distinct xs \<Longrightarrow> distinct (set_add x xs)"
  "length (set_add x xs) \<le> Suc (length xs)"
  "x \<in> set (set_add x xs)"
  by (simp_all add: set_add_def)

lemma length_set_pop: "xs \<noteq> [] \<Longrightarrow> length (set_pop i xs) = length xs - 1"
proof -
  assume "xs \<noteq> []"
  then have "i mod length xs < length xs" by simp
  then show ?thesis by (simp add: set_pop_def min_def)
qed

lemma distinct_drop_one: "distinct xs \<Longrightarrow> distinct (take n xs @ drop (Suc n) xs)"
proof -
  assume d: "distinct xs"
  have "distinct (take n xs @ drop n xs)" using d by simp
  then have disj: "set (take n xs) \<inter> set (drop n xs) = {}" by (simp only: distinct_append)
  have "set (drop (Suc n) xs) \<subseteq> set (drop n xs)"
    by (rule set_drop_subset_set_drop) simp
  with disj have "set (take n xs) \<inter> set (drop (Suc n) xs) = {}" by blast
  with d show ?thesis by simp
qed

lemma distinct_set_pop: "distinct xs \<Longrightarrow> distinct (set_pop i xs)"
  unfolding set_pop_def by (rule distinct_drop_one)

lemma bounded_remember: "bounded s \<Longrightarrow> bounded (remember_video e v s)"
proof -
  assume b: "bounded s"
  let ?pv = "set_add v (played_videos s)"
  have d: "distinct ?pv" and l: "length ?pv \<le> 11"
    using b set_add_props(2) [of v "played_videos s"]
    by (simp_all add: bounded_def set_add_props(1))
  show ?thesis
  proof (cases "length ?pv > 10")
    case True
    then have "?pv \<noteq> []" by auto
    then have "length (set_pop (pop_choice e ?pv) ?pv) = length ?pv - 1"
      by (rule length_set_pop)
    with l True d show ?thesis
      by (simp add: bounded_def remember_video_def Let_def distinct_set_pop)
  next
    case False
    with d show ?thesis by (simp add: bounded_def remember_video_def Let_def)
  qed
qed

lemma bounded_say: "bounded (say a s) = bounded s"
  by (simp add: bounded_def say_def)

lemma bounded_play_video: "bounded s \<Longrightarrow> bounded (play_video e url v a b s)"
  by (auto simp: play_video_def Let_def stop_current_video_def bounded_say
        intro!: bounded_remember split: popen_result.splits)

lemma gui_skips_played:
  "variant e = Gui \<Longrightarrow> vlc_path e \<Longrightarrow> v \<in> set (played_videos s) \<Longrightarrow>
   play_video e url v a b s = say (AlreadyPlayed v) s
   \<and> launches (trace (play_video e url v a b s)) = launches (trace s)"
  by (simp add: play_video_def say_def launches_def)

lemma bounded_start_pending: "bounded s \<Longrightarrow> bounded (start_pending_video e s)"
proof (cases "pending_video s")
  case None
  assume "bounded s"
  with None show ?thesis by (simp add: start_pending_video_def)
next
  case (Some pv)
  assume b: "bounded s"
  obtain url v a b where pv: "pv = (url, v, a, b)" by (cases pv) auto
  let ?s1 = "if video_start_delay e > 0 then say (Sleep (video_start_delay e)) s else s"
  have "bounded ?s1" using b by (simp add: bounded_say)
  then have "bounded (play_video e url v a b ?s1)" by (rule bounded_play_video)
  then show ?thesis
    using Some pv by (simp add: start_pending_video_def Let_def bounded_def)
qed

lemma played_run_queries:
  "run_queries e ca cs k qs s = (r, s') \<Longrightarrow> played_videos s' = played_videos s"
proof (induction qs arbitrary: s)
  case Nil
  then show ?case by simp
next
  case (Cons q qs)
  show ?case
  proof (cases "api_search e q")
    case HttpError
    with Cons.prems show ?thesis by (auto simp: Let_def say_def)
  next
    case (Items items)
    show ?thesis
    proof (cases "find (is_match (tables e) ca cs) items")
      case (Some it)
      with Cons.prems Items show ?thesis by (auto simp: Let_def say_def)
    next
      case None
      show ?thesis
      proof (cases "items = []")
        case True
        with Cons.prems Items None have "run_queries e ca cs k qs (say (ApiQuery q) s) = (r, s')"
          by (simp add: Let_def)
        then have "played_videos s' = played_videos (say (ApiQuery q) s)" by (rule Cons.IH)
        then show ?thesis by (simp add: say_def)
      next
        case False
        with Cons.prems Items None show ?thesis by (auto simp: Let_def say_def)
      qed
    qed
  qed
qed

lemma played_search_video:
  "search_video e a b s = (r, s') \<Longrightarrow> played_videos s' = played_videos s"
proof -
  assume sv: "search_video e a b s = (r, s')"
  show ?thesis
  proof (cases "youtube e")
    case False
    with sv show ?thesis by (auto simp: search_video_def Let_def say_def)
  next
    case True
    obtain ca cs where cl: "clean_search_terms a b = (ca, cs)" by (cases "clean_search_terms a b")
    let ?k = "lower (tables e) ca @ str '' - '' @ lower (tables e) cs"
    show ?thesis
    proof (cases "map_of (search_cache (say (SearchVideo a b) s)) ?k")
      case (Some v)
      with sv True cl show ?thesis by (auto simp: search_video_def Let_def say_def)
    next
      case None
      obtain r0 s0 where rq: "run_queries e ca cs ?k (search_queries ca cs) (say (SearchVideo a b) s) = (r0, s0)"
        by (cases "run_queries e ca cs ?k (search_queries ca cs) (say (SearchVideo a b) s)")
      then have "played_videos s0 = played_videos (say (SearchVideo a b) s)"
        by (rule played_run_queries)
      moreover have "s' = s0"
        using sv True cl None rq by (auto simp: search_video_def Let_def split: outcome.splits)
      ultimately show ?thesis by (simp add: say_def)
    qed
  qed
qed

lemma bounded_same_played: "played_videos s' = played_videos s \<Longrightarrow> bounded s' = bounded s"
  by (simp add: bounded_def)

lemma bounded_prepare_video: "bounded s \<Longrightarrow> bounded (prepare_video e s)"
proof -
  assume b: "bounded s"
  obtain r s1 where sv: "search_video e (current_artist s) (current_song s) s = (r, s1)"
    by (cases "search_video e (current_artist s) (current_song s) s")
  then have "played_videos s1 = played_videos s" by (rule played_search_video)
  with b have b1: "bounded s1" by (simp add: bounded_def)
  show ?thesis
  proof (cases r)
    case Raised
    with sv b1 show ?thesis by (simp add: prepare_video_def)
  next
    case (Returned video_id)
    let ?s1' = "say (GetStreamUrl (the video_id)) s1"
    let ?s3 = "?s1'\<lparr>pending_video := Some (the (get_stream_url e (the video_id)), the video_id,
                   current_artist ?s1', current_song ?s1')\<rparr>"
    have b2: "bounded ?s1'" using b1 by (simp add: bounded_say)
    then have b3: "bounded ?s3" by (simp add: bounded_def)
    then have b4: "bounded (start_pending_video e ?s3)" by (rule bounded_start_pending)
    define x where "x = (if truthy video_id
              then if truthy (get_stream_url e (the video_id))
                   then if game_state ?s3 = 1 then start_pending_video e ?s3 else ?s3
                   else ?s1'
              else s1)"
    have "bounded x"
      unfolding x_def using b1 b2 b3 b4 by simp
    then have "bounded (x\<lparr>current_song := [], current_artist := []\<rparr>)"
      by (simp add: bounded_def)
    moreover have "prepare_video e s = x\<lparr>current_song := [], current_artist := []\<rparr>"
      unfolding x_def using sv Returned by (simp add: prepare_video_def Let_def)
    ultimately show ?thesis by simp
  qed
qed

lemma bounded_play_current_song: "bounded s \<Longrightarrow> bounded (play_current_song e s)"
proof -
  assume b: "bounded s"
  obtain r s1 where sv: "search_video e (current_artist s) (current_song s) s = (r, s1)"
    by (cases "search_video e (current_artist s) (current_song s) s")
  then have "played_videos s1 = played_videos s" by (rule played_search_video)
  with b have b1: "bounded s1" by (simp add: bounded_def)
  show ?thesis
  proof (cases r)
    case Raised
    with sv b1 show ?thesis by (simp add: play_current_song_def)
  next
    case (Returned video_id)
    let ?s1' = "say (GetStreamUrl (the video_id)) s1"
    have b2: "bounded ?s1'" using b1 by (simp add: bounded_say)
    then have b3: "bounded (play_video e (the (get_stream_url e (the video_id))) (the video_id)
                 (current_artist ?s1') (current_song ?s1') ?s1')"
      by (rule bounded_play_video)
    define x where "x = (if truthy video_id
              then if truthy (get_stream_url e (the video_id))
                   then play_video e (the (get_stream_url e (the video_id))) (the video_id)
                          (current_artist ?s1') (current_song ?s1') ?s1'
                   else ?s1'
              else s1)"
    have "bounded x"
      unfolding x_def using b1 b2 b3 by simp
    then have "bounded (x\<lparr>current_song := [], current_artist := []\<rparr>)"
      by (simp add: bounded_def)
    moreover have "play_current_song e s = x\<lparr>current_song := [], current_artist := []\<rparr>"
      unfolding x_def using sv Returned by (simp add: play_current_song_def Let_def)
    ultimately show ?thesis by simp
  qed
qed

lemma bounded_handle_state_change: "bounded s \<Longrightarrow> bounded (handle_state_change e pdata s)"
proof -
  assume b: "bounded s"
  have "bounded (start_pending_video e (say SongStarting s))"
    using b by (simp add: bounded_start_pending bounded_say)
  with b show ?thesis
    by (auto simp: handle_state_change_def Let_def bounded_def say_def stop_current_video_def
          split: option.splits)
qed

lemma bounded_process_packet: "bounded s \<Longrightarrow> bounded (process_packet e data s)"
proof -
  assume b: "bounded s"
  have d: "bounded (dispatch e p s)" for p
    using b bounded_handle_state_change [of s e "packet_data p"]
    by (simp add: dispatch_def bounded_def)
  have "bounded (process_event e p s)" for p
    using d [of p] by (simp add: process_event_def Let_def bounded_prepare_video bounded_play_current_song)
  then show ?thesis using b by (simp add: process_packet_def split: option.splits)
qed

lemma bounded_run: "bounded s \<Longrightarrow> bounded (run e datagrams s)"
  unfolding run_def
  by (induction datagrams arbitrary: s) (simp_all add: bounded_process_packet)

lemma played_videos_at_most_ten: "length (played_videos (run e datagrams init)) \<le> 10"
proof -
  have "bounded init" by (simp add: bounded_def init_def)
  then have "bounded (run e datagrams init)" by (rule bounded_run)
  then show ?thesis by (simp add: bounded_def)
qed

lemma eleventh_evicts:
  assumes "length (played_videos s) = 10" and "v \<notin> set (played_videos s)"
  shows "length (played_videos (remember_video e v s)) = 10"
proof -
  have "set_add v (played_videos s) = played_videos s @ [v]"
    using assms(2) by (simp add: set_add_def)
  moreover have "length (set_pop i (played_videos s @ [v])) = 10" for i
    using length_set_pop [of "played_videos s @ [v]" i] assms(1) by simp
  ultimately show ?thesis
    using assms(1) by (simp add: remember_video_def Let_def)
qed

lemma nogui_never_asks:
  "variant e = NoGui \<Longrightarrow> vlc_path e \<Longrightarrow>
   \<exists>rest. trace (play_video e url v a b s) = trace s @ [StopCurrentVideo, Popen url] @ rest"
  by (auto simp: play_video_def Let_def say_def stop_current_video_def remember_video_def
        split: popen_result.splits)

text \<open>
  Claim C3. The bound holds in both programs: after any run the set of played
  videos has at most ten elements (\<open>played_videos_at_most_ten\<close>), the eleventh
  distinct video evicts one (\<open>eleventh_evicts\<close>), and the program
  with the window skips a video that is in the set (\<open>gui_skips_played\<close>). The
  program without the window keeps the set but never asks it
  (\<open>nogui_never_asks\<close>). Here the same song is announced twice, each time followed
  by the change to state 1: song artist "A", song name "B", state 1, state 0, and
  the same again. The search finds the video "v". After the first three datagrams
  "v" is in the set of played videos; all the same the program without the window
  launches VLC a second time for it, where the program with the window launches it
  once.
\<close>

theorem nogui_plays_again:
  "played_videos (run (sample_env NoGui (\<lambda>q. Items [\<lparr>videoId = [0x76], title = [0x74], channelTitle = [0x63]\<rparr>]))
       [[0x52, 0x42, 0x33, 0x45, 0, 3, 1, 0, 0x41], [0x52, 0x42, 0x33, 0x45, 0, 2, 1, 0, 0x42],
        [0x52, 0x42, 0x33, 0x45, 0, 1, 1, 0, 1]] init) = [[0x76]]
   \<and> launches (trace (run (sample_env NoGui (\<lambda>q. Items [\<lparr>videoId = [0x76], title = [0x74], channelTitle = [0x63]\<rparr>]))
       [[0x52, 0x42, 0x33, 0x45, 0, 3, 1, 0, 0x41], [0x52, 0x42, 0x33, 0x45, 0, 2, 1, 0, 0x42],
        [0x52, 0x42, 0x33, 0x45, 0, 1, 1, 0, 1], [0x52, 0x42, 0x33, 0x45, 0, 1, 1, 0, 0],
        [0x52, 0x42, 0x33, 0x45, 0, 3, 1, 0, 0x41], [0x52, 0x42, 0x33, 0x45, 0, 2, 1, 0, 0x42],
        [0x52, 0x42, 0x33, 0x45, 0, 1, 1, 0, 1]] init))
     = [Popen (str ''stream:v''), Popen (str ''stream:v'')]
   \<and> launches (trace (run (sample_env Gui (\<lambda>q. Items [\<lparr>videoId = [0x76], title = [0x74], channelTitle = [0x63]\<rparr>]))
       [[0x52, 0x42, 0x33, 0x45, 0, 3, 1, 0, 0x41], [0x52, 0x42, 0x33, 0x45, 0, 2, 1, 0, 0x42],
        [0x52, 0x42, 0x33, 0x45, 0, 1, 1, 0, 1], [0x52, 0x42, 0x33, 0x45, 0, 1, 1, 0, 0],
        [0x52, 0x42, 0x33, 0x45, 0, 3, 1, 0, 0x41], [0x52, 0x42, 0x33, 0x45, 0, 2, 1, 0, 0x42],
        [0x52, 0x42, 0x33, 0x45, 0, 1, 1, 0, 1]] init))
     = [Popen (str ''stream:v'')]"
  by (simp add: eval_defs)

section \<open>The trigger of the pipeline\<close>

lemma searches_say:
  "searches (trace (say a s)) =
     searches (trace s) + (case a of SearchVideo artist song \<Rightarrow> 1 | _ \<Rightarrow> 0)"
  by (simp add: searches_def say_def split: action.splits)

lemma searches_play_video: "searches (trace (play_video e url v a b s)) = searches (trace s)"
  by (auto simp: play_video_def stop_current_video_def Let_def searches_say remember_video_def
        split: popen_result.splits)

lemma searches_start_pending: "searches (trace (start_pending_video e s)) = searches (trace s)"
  by (auto simp: start_pending_video_def Let_def searches_play_video searches_say
        split: option.splits)

lemma searches_handle: "searches (trace (handle_state_change e pdata s)) = searches (trace s)"
  by (auto simp: handle_state_change_def Let_def searches_start_pending searches_say
        stop_current_video_def split: option.splits)

lemma searches_dispatch: "searches (trace (dispatch e p s)) = searches (trace s)"
  by (simp add: dispatch_def searches_handle)

lemma searches_run_queries:
  "run_queries e ca cs k qs s = (r, s') \<Longrightarrow> searches (trace s') = searches (trace s)"
proof (induction qs arbitrary: s)
  case Nil
  then show ?case by simp
next
  case (Cons q qs)
  show ?case
  proof (cases "api_search e q")
    case HttpError
    with Cons.prems show ?thesis by (auto simp: Let_def searches_say)
  next
    case (Items items)
    show ?thesis
    proof (cases "find (is_match (tables e) ca cs) items")
      case (Some it)
      with Cons.prems Items show ?thesis by (auto simp: Let_def searches_say)
    next
      case None
      show ?thesis
      proof (cases "items = []")
        case True
        with Cons.prems Items None have "run_queries e ca cs k qs (say (ApiQuery q) s) = (r, s')"
          by (simp add: Let_def)
        then have "searches (trace s') = searches (trace (say (ApiQuery q) s))" by (rule Cons.IH)
        then show ?thesis by (simp add: searches_say)
      next
        case False
        with Cons.prems Items None show ?thesis by (auto simp: Let_def searches_say)
      qed
    qed
  qed
qed

lemma searches_search_video:
  "search_video e a b s = (r, s') \<Longrightarrow> searches (trace s') = Suc (searches (trace s))"
proof -
  assume sv: "search_video e a b s = (r, s')"
  show ?thesis
  proof (cases "youtube e")
    case False
    with sv show ?thesis by (auto simp: search_video_def Let_def searches_say)
  next
    case True
    obtain ca cs where cl: "clean_search_terms a b = (ca, cs)" by (cases "clean_search_terms a b")
    let ?k = "lower (tables e) ca @ str '' - '' @ lower (tables e) cs"
    show ?thesis
    proof (cases "map_of (search_cache (say (SearchVideo a b) s)) ?k")
      case (Some v)
      with sv True cl show ?thesis by (auto simp: search_video_def Let_def searches_say)
    next
      case None
      obtain r0 s0 where rq: "run_queries e ca cs ?k (search_queries ca cs) (say (SearchVideo a b) s) = (r0, s0)"
        by (cases "run_queries e ca cs ?k (search_queries ca cs) (say (SearchVideo a b) s)")
      then have "searches (trace s0) = searches (trace (say (SearchVideo a b) s))"
        by (rule searches_run_queries)
      moreover have "s' = s0"
        using sv True cl None rq by (auto simp: search_video_def Let_def split: outcome.splits)
      ultimately show ?thesis by (simp add: searches_say)
    qed
  qed
qed

text \<open>The search raises only in the program with the window, and only on an error of a request.\<close>

lemma run_queries_no_error:
  "\<forall>q \<in> set qs. api_search e q \<noteq> HttpError \<Longrightarrow> fst (run_queries e ca cs k qs s) \<noteq> Raised"
proof (induction qs arbitrary: s)
  case Nil
  then show ?case by simp
next
  case (Cons q qs)
  then obtain items where "api_search e q = Items items" by (cases "api_search e q") auto
  with Cons show ?case
    by (auto simp: Let_def split: option.splits)
qed

lemma search_video_returns:
  assumes "variant e = NoGui \<or> (\<forall>q. api_search e q \<noteq> HttpError)"
  shows "fst (search_video e a b s) \<noteq> Raised"
proof (cases "variant e = NoGui")
  case True
  then show ?thesis
    by (auto simp: search_video_def Let_def split: prod.splits option.splits outcome.splits)
next
  case False
  with assms have "\<forall>q. api_search e q \<noteq> HttpError" by simp
  then have "fst (run_queries e ca cs k qs s') \<noteq> Raised" for ca cs k qs s'
    by (intro run_queries_no_error) simp
  then have "run_queries e ca cs k qs s' \<noteq> (Raised, s'')" for ca cs k qs s' s''
    by (metis fst_conv)
  then show ?thesis
    by (auto simp: search_video_def Let_def split: prod.splits option.splits outcome.splits)
qed

lemma pipeline_once:
  "searches (trace (if preloads e then prepare_video e s else play_current_song e s))
     = Suc (searches (trace s))"
proof -
  obtain r s1 where sv: "search_video e (current_artist s) (current_song s) s = (r, s1)"
    by (cases "search_video e (current_artist s) (current_song s) s")
  then have n: "searches (trace s1) = Suc (searches (trace s))" by (rule searches_search_video)
  show ?thesis
  proof (cases r)
    case Raised
    with sv n show ?thesis by (simp add: prepare_video_def play_current_song_def)
  next
    case (Returned video_id)
    with sv n show ?thesis
      by (auto simp: prepare_video_def play_current_song_def Let_def searches_say
            searches_start_pending searches_play_video)
  qed
qed

lemma pipeline_clears:
  assumes "fst (search_video e (current_artist s) (current_song s) s) \<noteq> Raised"
  shows "current_song (if preloads e then prepare_video e s else play_current_song e s) = []"
    and "current_artist (if preloads e then prepare_video e s else play_current_song e s) = []"
proof -
  obtain r s1 where sv: "search_video e (current_artist s) (current_song s) s = (r, s1)"
    by (cases "search_video e (current_artist s) (current_song s) s")
  with assms obtain video_id where "r = Returned video_id" by (cases r) auto
  with sv show "current_song (if preloads e then prepare_video e s else play_current_song e s) = []"
    and "current_artist (if preloads e then prepare_video e s else play_current_song e s) = []"
    by (simp_all add: prepare_video_def play_current_song_def Let_def)
qed

lemma process_event_pipeline:
  "searches (trace (process_event e p s)) =
     searches (trace s) +
       (if current_song (dispatch e p s) \<noteq> [] \<and> current_artist (dispatch e p s) \<noteq> [] then 1 else 0)"
  using pipeline_once [of e "dispatch e p s"] searches_dispatch [of e p s]
  by (simp add: process_event_def Let_def)

lemma process_event_clears:
  assumes "variant e = NoGui \<or> (\<forall>q. api_search e q \<noteq> HttpError)"
  shows "current_song (process_event e p s) = [] \<or> current_artist (process_event e p s) = []"
proof -
  let ?s1 = "dispatch e p s"
  have "fst (search_video e (current_artist ?s1) (current_song ?s1) ?s1) \<noteq> Raised"
    using assms by (rule search_video_returns)
  then have "current_song (if preloads e then prepare_video e ?s1 else play_current_song e ?s1) = []"
    by (rule pipeline_clears)
  then show ?thesis by (auto simp: process_event_def Let_def)
qed

text \<open>
  Claim C2. After the dispatch of an event, song and artist both known make the
  listener call \<open>search_video\<close> exactly once (\<open>process_event_pipeline\<close>), and both are
  cleared afterwards whenever the search returns (\<open>process_event_clears\<close>), with or without a video and with or
  without a stream. In the program with the window the search raises when the
  request fails; then \<open>prepare_video\<close> leaves song and artist in place, and the next
  event of any kind, here an Alive event, runs the search for the same pair again.
  The program without the window, on the same datagrams, searches once and clears
  both.
\<close>

theorem gui_search_error_keeps_song:
  "current_song (run (sample_env Gui (\<lambda>q. HttpError))
      [[0x52, 0x42, 0x33, 0x45, 0, 3, 1, 0, 0x41], [0x52, 0x42, 0x33, 0x45, 0, 2, 1, 0, 0x42]] init) = [0x42]
   \<and> current_artist (run (sample_env Gui (\<lambda>q. HttpError))
      [[0x52, 0x42, 0x33, 0x45, 0, 3, 1, 0, 0x41], [0x52, 0x42, 0x33, 0x45, 0, 2, 1, 0, 0x42]] init) = [0x41]
   \<and> trace (run (sample_env Gui (\<lambda>q. HttpError))
      [[0x52, 0x42, 0x33, 0x45, 0, 3, 1, 0, 0x41], [0x52, 0x42, 0x33, 0x45, 0, 2, 1, 0, 0x42],
       [0x52, 0x42, 0x33, 0x45, 0, 0, 0, 0]] init)
     = [SearchVideo [0x41] [0x42], ApiQuery (str ''A B official music video''),
        SearchVideo [0x41] [0x42], ApiQuery (str ''A B official music video'')]
   \<and> trace (run (sample_env NoGui (\<lambda>q. HttpError))
      [[0x52, 0x42, 0x33, 0x45, 0, 3, 1, 0, 0x41], [0x52, 0x42, 0x33, 0x45, 0, 2, 1, 0, 0x42],
       [0x52, 0x42, 0x33, 0x45, 0, 0, 0, 0]] init)
     = [SearchVideo [0x41] [0x42], ApiQuery (str ''A B official music video'')]
   \<and> current_song (run (sample_env NoGui (\<lambda>q. HttpError))
      [[0x52, 0x42, 0x33, 0x45, 0, 3, 1, 0, 0x41], [0x52, 0x42, 0x33, 0x45, 0, 2, 1, 0, 0x42]] init) = []"
  by (simp add: eval_defs)

section \<open>The state value\<close>

lemma decimal_is_digit:
  assumes "\<forall>c. u_decimal u c \<noteq> None \<longrightarrow> u_isdigit u c"
  shows "decimal_char u c \<noteq> None \<Longrightarrow> isdigit_char u c"
  using assms by (auto simp: decimal_char_def isdigit_char_def split: if_splits)

lemma all_decimal_isdigit:
  assumes "\<forall>c. u_decimal u c \<noteq> None \<longrightarrow> u_isdigit u c" and "all_decimal u s"
  shows "isdigit u s"
  using assms decimal_is_digit [OF assms(1)]
  by (auto simp: all_decimal_def isdigit_def list_all_iff)

lemma new_state_of_as_specified:
  assumes "\<forall>c. u_decimal u c \<noteq> None \<longrightarrow> u_isdigit u c"
    and "\<not> (isdigit u s \<and> \<not> all_decimal u s)"
  shows "new_state_of u s = Some (state_value_spec u s)"
proof (cases "all_decimal u s")
  case True
  with assms(1) have "isdigit u s" by (rule all_decimal_isdigit)
  with True show ?thesis
    by (simp add: new_state_of_def state_value_spec_def py_int_def all_decimal_def decimal_value_def)
next
  case False
  with assms(2) have "\<not> isdigit u s" by simp
  with False show ?thesis
    by (simp add: new_state_of_def state_value_spec_def)
qed

lemma new_state_of_digit_without_value:
  "isdigit u s \<Longrightarrow> \<not> all_decimal u s \<Longrightarrow> new_state_of u s = None"
  by (simp add: new_state_of_def py_int_def all_decimal_def)

lemma decode_superscript_two:
  "decode [0x52, 0x42, 0x33, 0x45, 0, 1, 2, 0, 0xC2, 0xB2] = Some \<lparr>packet_type = 1, packet_data = [0xB2]\<rparr>"
  by (simp add: decode_def unpack_be_def slice_def RB3E_EVENTS_MAGIC_def RB3E_EVENTS_PROTOCOL_def
        rstrip_nul_def is_cont_def)

text \<open>
  Claim C6. The three examples hold (\<open>new_state_of_samples\<close>), and the state value
  is the specified one for every payload but those that \<open>isdigit\<close> accepts and
  \<open>int\<close> rejects (\<open>new_state_of_as_specified\<close>). Such a payload is the superscript
  two, sent as the bytes C2 B2: it is a digit without a decimal value, \<open>int\<close> raises,
  and the handler's \<open>except\<close> clause drops the event. No state value is decoded and
  the stored state stays 0, where the specified value is 178, the code of the
  character, which the letter "A" does get (65).
\<close>

theorem superscript_two_has_no_state_value:
  "decode [0x52, 0x42, 0x33, 0x45, 0, 1, 2, 0, 0xC2, 0xB2] = Some \<lparr>packet_type = 1, packet_data = [0xB2]\<rparr>
   \<and> isdigit (tables (sample_env NoGui (\<lambda>q. Items []))) [0xB2]
   \<and> py_int (tables (sample_env NoGui (\<lambda>q. Items []))) [0xB2] = None
   \<and> new_state_of (tables (sample_env NoGui (\<lambda>q. Items []))) [0xB2] = None
   \<and> state_value_spec (tables (sample_env NoGui (\<lambda>q. Items []))) [0xB2] = 178
   \<and> game_state (process_packet (sample_env NoGui (\<lambda>q. Items []))
         [0x52, 0x42, 0x33, 0x45, 0, 1, 2, 0, 0xC2, 0xB2] init) = 0
   \<and> game_state (process_packet (sample_env NoGui (\<lambda>q. Items []))
         [0x52, 0x42, 0x33, 0x45, 0, 1, 1, 0, 0x41] init) = 65"
  by (simp add: decode_superscript_two decode_state_datagrams process_packet_def process_event_def
      dispatch_def handle_state_change_def new_state_of_def isdigit_def isdigit_char_def py_int_def
      decimal_char_def state_value_spec_def all_decimal_def init_def Let_def
      RB3E_EVENT_ALIVE_def RB3E_EVENT_STATE_def)

section \<open>The payload text\<close>

lemma utf8_decode_ascii: "\<forall>b \<in> set bs. unat b < 0x80 \<Longrightarrow> utf8_decode h bs = map unat bs"
  by (induction bs) (simp_all add: Let_def)

lemma utf8_decode_invalid:
  "utf8_next (b # bs) = Invalid n \<Longrightarrow>
   utf8_decode Ignore (b # bs) = utf8_decode Ignore (drop n (b # bs))"
  by (simp add: on_error_def)

lemma utf8_decode_bad_start:
  assumes "(0x80 \<le> unat b \<and> unat b < 0xC2) \<or> 0xF5 \<le> unat b"
  shows "utf8_decode Ignore (b # bs) = utf8_decode Ignore bs"
proof -
  have "utf8_next (b # bs) = Invalid 1" using assms by (auto simp: Let_def)
  then show ?thesis by (simp add: on_error_def)
qed

lemma rstrip_nul_padding:
  assumes "bs = [] \<or> last bs \<noteq> 0"
  shows "rstrip_nul (bs @ replicate k 0) = bs"
proof -
  have "dropWhile (\<lambda>b. b = 0) (replicate k (0::byte) @ rev bs) = dropWhile (\<lambda>b. b = 0) (rev bs)"
    by (induction k) simp_all
  moreover have "dropWhile (\<lambda>b. b = 0) (rev bs) = rev bs"
    using assms by (cases "rev bs") (auto simp: last_rev [symmetric])
  ultimately show ?thesis by (simp add: rstrip_nul_def)
qed

lemma decode_payload:
  assumes "8 \<le> length data" "unpack_be (slice 0 4 data) = RB3E_EVENTS_MAGIC"
    "unat (data ! 4) = RB3E_EVENTS_PROTOCOL"
  shows "map_option packet_data (decode data) =
           Some (utf8_decode Ignore (rstrip_nul (slice 8 (8 + unat (data ! 6)) data)))"
  using assms by (simp add: decode_def Let_def slice_def rstrip_nul_def)

lemma decode_hello:
  "decode ([0x52, 0x42, 0x33, 0x45, 0, 2, 5, platform, 0x48, 0x65, 0x6C, 0x6C, 0x6F] @ padding)
     = Some \<lparr>packet_type = RB3E_EVENT_SONG_NAME, packet_data = str ''Hello''\<rparr>"
  by (simp add: decode_def unpack_be_def slice_def RB3E_EVENTS_MAGIC_def RB3E_EVENTS_PROTOCOL_def
        rstrip_nul_def RB3E_EVENT_SONG_NAME_def str_def)

text \<open>
  Claim C5, as stated, fails where the payload holds an invalid byte. The datagram
  below declares one payload byte, \<open>FF\<close>, which begins no UTF-8 sequence. The
  decoder is called with \<open>errors='ignore'\<close> and drops the byte: the payload text is
  empty. Decoding with replacement gives the one character \<open>U+FFFD\<close>.
\<close>

theorem invalid_byte_is_not_replaced:
  "map_option packet_data (decode [0x52, 0x42, 0x33, 0x45, 0, 2, 1, 0, 0xFF])
     \<noteq> Some (utf8_decode Replace (rstrip_nul (slice 8 (8 + 1) [0x52, 0x42, 0x33, 0x45, 0, 2, 1, 0, 0xFF])))"
  by (simp add: decode_def unpack_be_def slice_def RB3E_EVENTS_MAGIC_def RB3E_EVENTS_PROTOCOL_def
        rstrip_nul_def on_error_def)

text \<open>
  Claim C5, amended. For every well-formed packet with declared length \<open>n\<close> the
  payload text is the bytes \<open>[8, 8+n)\<close> of the datagram, without the NUL bytes at
  their end, decoded as UTF-8 with every invalid stretch dropped: bytes below
  \<open>0x80\<close> decode to themselves, an invalid stretch contributes nothing, and so a
  byte that can begin no sequence is skipped. In particular a packet of type 2 and
  length 5 with the payload "Hello", whatever follows it, is the song name "Hello".
\<close>

theorem payload_text:
  "(8 \<le> length data \<and> unpack_be (slice 0 4 data) = RB3E_EVENTS_MAGIC
      \<and> unat (data ! 4) = RB3E_EVENTS_PROTOCOL \<longrightarrow>
      map_option packet_data (decode data) =
        Some (utf8_decode Ignore (rstrip_nul (slice 8 (8 + unat (data ! 6)) data))))
   \<and> ((bs = [] \<or> last bs \<noteq> 0) \<longrightarrow> rstrip_nul (bs @ replicate k 0) = bs)
   \<and> ((\<forall>b \<in> set bs. unat b < 0x80) \<longrightarrow> utf8_decode Ignore bs = map unat bs)
   \<and> (utf8_next (b # bs) = Invalid n \<longrightarrow>
        utf8_decode Ignore (b # bs) = utf8_decode Ignore (drop n (b # bs)))
   \<and> ((0x80 \<le> unat b \<and> unat b < 0xC2) \<or> 0xF5 \<le> unat b \<longrightarrow>
        utf8_decode Ignore (b # bs) = utf8_decode Ignore bs)
   \<and> decode ([0x52, 0x42, 0x33, 0x45, 0, 2, 5, platform, 0x48, 0x65, 0x6C, 0x6C, 0x6F] @ padding)
        = Some \<lparr>packet_type = RB3E_EVENT_SONG_NAME, packet_data = str ''Hello''\<rparr>"
  using decode_payload [of data] rstrip_nul_padding [of bs k] utf8_decode_ascii [of bs Ignore]
    utf8_decode_invalid [of b bs n] utf8_decode_bad_start [of b bs] decode_hello [of platform padding]
  by blast

theorem payload_text_witness:
  "map_option packet_data (decode [0x52, 0x42, 0x33, 0x45, 0, 2, 4, 0, 0x48, 0xFF, 0x69, 0, 0]) = Some (str ''Hi'')
   \<and> current_song (process_packet (sample_env NoGui (\<lambda>q. Items []))
        [0x52, 0x42, 0x33, 0x45, 0, 2, 5, 0, 0x48, 0x65, 0x6C, 0x6C, 0x6F, 0, 0, 0] init) = str ''Hello''"
  using payload_text [of "[0x52, 0x42, 0x33, 0x45, 0, 2, 4, 0, 0x48, 0xFF, 0x69, 0, 0]"
      "[0x69]" 1 "0xFF" 1 0 "[0, 0, 0]"]
  by (simp add: unpack_be_def slice_def RB3E_EVENTS_MAGIC_def RB3E_EVENTS_PROTOCOL_def
        rstrip_nul_def on_error_def str_def process_packet_def process_event_def dispatch_def
        RB3E_EVENT_ALIVE_def RB3E_EVENT_STATE_def RB3E_EVENT_SONG_NAME_def init_def Let_def)

section \<open>The selection among the results: properties\<close>

lemma run_queries_skip_empty:
  "\<forall>q \<in> set before. api_search e q = Items [] \<Longrightarrow>
   run_queries e ca cs k (before @ qs) s
     = run_queries e ca cs k qs (s\<lparr>trace := trace s @ map ApiQuery before\<rparr>)"
proof (induction before arbitrary: s)
  case Nil
  then show ?case by simp
next
  case (Cons q before)
  then have "run_queries e ca cs k ((q # before) @ qs) s
      = run_queries e ca cs k (before @ qs) (say (ApiQuery q) s)"
    by (simp add: Let_def)
  also have "\<dots> = run_queries e ca cs k qs
      ((say (ApiQuery q) s)\<lparr>trace := trace (say (ApiQuery q) s) @ map ApiQuery before\<rparr>)"
    using Cons.prems by (intro Cons.IH) simp
  finally show ?case by (simp add: say_def)
qed

lemma run_queries_first_answer:
  assumes "api_search e q = Items items" and "items \<noteq> []"
  shows "run_queries e ca cs k (q # qs) s =
           (Returned (Some (videoId (selected (tables e) ca cs items))),
            s\<lparr>trace := trace s @ [ApiQuery q],
              search_cache := (k, videoId (selected (tables e) ca cs items)) # search_cache s\<rparr>)"
  using assms by (simp add: Let_def selected_def say_def split: option.splits)

lemma run_queries_selects:
  assumes "\<forall>q \<in> set before. api_search e q = Items []"
    and "api_search e q = Items items" and "items \<noteq> []"
  shows "run_queries e ca cs k (before @ q # qs) s =
           (Returned (Some (videoId (selected (tables e) ca cs items))),
            s\<lparr>trace := trace s @ map ApiQuery before @ [ApiQuery q],
              search_cache := (k, videoId (selected (tables e) ca cs items)) # search_cache s\<rparr>)"
  using run_queries_skip_empty [OF assms(1), of ca cs k "q # qs" s]
    run_queries_first_answer [OF assms(2,3), of ca cs k qs "s\<lparr>trace := trace s @ map ApiQuery before\<rparr>"]
  by simp

lemma selected_first_match:
  "items \<noteq> [] \<Longrightarrow>
   (\<exists>i < length items. selected u ca cs items = items ! i \<and> is_match u ca cs (items ! i)
        \<and> (\<forall>j < i. \<not> is_match u ca cs (items ! j)))
   \<or> ((\<forall>it \<in> set items. \<not> is_match u ca cs it) \<and> selected u ca cs items = items ! 0)"
proof (cases "find (is_match u ca cs) items")
  case None
  assume ne: "items \<noteq> []"
  from None have "selected u ca cs items = hd items" by (simp add: selected_def)
  with ne have "selected u ca cs items = items ! 0" by (simp add: hd_conv_nth)
  moreover from None have "\<forall>it \<in> set items. \<not> is_match u ca cs it"
    by (simp add: find_None_iff)
  ultimately show ?thesis by blast
next
  case (Some it)
  then have sel: "selected u ca cs items = it" by (simp add: selected_def)
  from Some obtain i where "i < length items" "is_match u ca cs (items ! i)" "it = items ! i"
    "\<forall>j < i. \<not> is_match u ca cs (items ! j)"
    unfolding find_Some_iff by blast
  with sel show ?thesis by blast
qed

lemma is_match_iff:
  "is_match u ca cs it \<longleftrightarrow>
     (contains (lower u cs) (lower u (title it)) \<and> contains (lower u ca) (lower u (title it)))
     \<or> contains (str ''official'') (lower u (channelTitle it))
     \<or> contains (str ''records'') (lower u (channelTitle it))
     \<or> contains (str ''music'') (lower u (channelTitle it))
     \<or> contains (lower u ca) (lower u (channelTitle it))"
  by (simp add: is_match_def Let_def)

lemma search_video_selects:
  assumes "youtube e" and "clean_search_terms artist song = (ca, cs)"
    and "map_of (search_cache s) (lower (tables e) ca @ str '' - '' @ lower (tables e) cs) = None"
    and "search_queries ca cs = before @ q # qs"
    and "\<forall>q \<in> set before. api_search e q = Items []"
    and "api_search e q = Items items" and "items \<noteq> []"
  shows "fst (search_video e artist song s) = Returned (Some (videoId (selected (tables e) ca cs items)))"
  using assms(1-4) run_queries_selects [OF assms(5-7)]
  by (simp add: search_video_def Let_def say_def)

lemma clean_Foo_Song:
  "clean_search_terms (str ''Foo'') (str ''Song'') = (str ''Foo'', str ''Song'')"
  "clean_search_terms [70, 111, 111] [83, 111, 110, 103] = ([70, 111, 111], [83, 111, 110, 103])"
  by (simp_all add: clean_search_terms_def strip_def match_paren_def match_modifier_def py_isspace_def
      match_feat_def starts_with_space_def str_def)

text \<open>
  Claim C8, as stated, fails where title or channel differ from the song, the artist
  or the three words in case only. For the artist "Foo" and the song "Song" the
  search answers with two videos: "FOO SONG" and "Foo Song", both of the channel
  "tv". The program compares lower-cased texts and takes the first; by the rule as
  stated the first title contains neither "Song" nor "Foo", and the second video
  is the one to take.
\<close>

theorem selection_ignores_case:
  "fst (search_video (sample_env NoGui (\<lambda>q. Items
       [\<lparr>videoId = str ''x1'', title = str ''FOO SONG'', channelTitle = str ''tv''\<rparr>,
        \<lparr>videoId = str ''x2'', title = str ''Foo Song'', channelTitle = str ''tv''\<rparr>])) (str ''Foo'') (str ''Song'') init) = Returned (Some (str ''x1''))
   \<and> videoId (selected_spec (str ''Foo'') (str ''Song'')
       [\<lparr>videoId = str ''x1'', title = str ''FOO SONG'', channelTitle = str ''tv''\<rparr>,
        \<lparr>videoId = str ''x2'', title = str ''Foo Song'', channelTitle = str ''tv''\<rparr>]) = str ''x2''"
  by (simp add: eval_defs clean_Foo_Song selected_spec_def is_match_spec_def)

text \<open>
  Claim C8, amended. Let the search be reached (client present, no cached
  identifier), let every earlier query of the plan have an empty answer and let
  the answer to the query \<open>q\<close> be non-empty. Then the search returns the identifier
  of the selected result: the first result of the answer that passes the test,
  and the first result of all if none passes. The test compares lower-cased
  texts: the lower-cased title contains the lower-cased song and the lower-cased
  artist, or the lower-cased channel contains "official", "records", "music" or
  the lower-cased artist.
\<close>

theorem selection_rule:
  "(youtube e \<and> clean_search_terms artist song = (ca, cs)
      \<and> map_of (search_cache s) (lower (tables e) ca @ str '' - '' @ lower (tables e) cs) = None
      \<and> search_queries ca cs = before @ q # qs
      \<and> (\<forall>q \<in> set before. api_search e q = Items [])
      \<and> api_search e q = Items items \<and> items \<noteq> [] \<longrightarrow>
      fst (search_video e artist song s)
        = Returned (Some (videoId (selected (tables e) ca cs items))))
   \<and> (items \<noteq> [] \<longrightarrow>
        (\<exists>i < length items. selected u ca cs items = items ! i \<and> is_match u ca cs (items ! i)
            \<and> (\<forall>j < i. \<not> is_match u ca cs (items ! j)))
        \<or> ((\<forall>it \<in> set items. \<not> is_match u ca cs it) \<and> selected u ca cs items = items ! 0))
   \<and> (is_match u ca cs it \<longleftrightarrow>
        (contains (lower u cs) (lower u (title it)) \<and> contains (lower u ca) (lower u (title it)))
        \<or> contains (str ''official'') (lower u (channelTitle it))
        \<or> contains (str ''records'') (lower u (channelTitle it))
        \<or> contains (str ''music'') (lower u (channelTitle it))
        \<or> contains (lower u ca) (lower u (channelTitle it)))"
proof (intro conjI impI)
  assume "youtube e \<and> clean_search_terms artist song = (ca, cs)
      \<and> map_of (search_cache s) (lower (tables e) ca @ str '' - '' @ lower (tables e) cs) = None
      \<and> search_queries ca cs = before @ q # qs
      \<and> (\<forall>q \<in> set before. api_search e q = Items [])
      \<and> api_search e q = Items items \<and> items \<noteq> []"
  then show "fst (search_video e artist song s)
        = Returned (Some (videoId (selected (tables e) ca cs items)))"
    using search_video_selects [of e artist song ca cs s before q qs items] by blast
next
  assume "items \<noteq> []"
  then show "(\<exists>i < length items. selected u ca cs items = items ! i \<and> is_match u ca cs (items ! i)
            \<and> (\<forall>j < i. \<not> is_match u ca cs (items ! j)))
        \<or> ((\<forall>it \<in> set items. \<not> is_match u ca cs it) \<and> selected u ca cs items = items ! 0)"
    by (rule selected_first_match)
next
  show "is_match u ca cs it \<longleftrightarrow>
        (contains (lower u cs) (lower u (title it)) \<and> contains (lower u ca) (lower u (title it)))
        \<or> contains (str ''official'') (lower u (channelTitle it))
        \<or> contains (str ''records'') (lower u (channelTitle it))
        \<or> contains (str ''music'') (lower u (channelTitle it))
        \<or> contains (lower u ca) (lower u (channelTitle it))"
    by (rule is_match_iff)
qed

theorem selection_rule_witness:
  "fst (search_video (sample_env Gui (\<lambda>q. if q = str ''Foo Song official music video'' then Items [] else Items
       [\<lparr>videoId = str ''y1'', title = str ''Other'', channelTitle = str ''tv''\<rparr>,
        \<lparr>videoId = str ''y2'', title = str ''Other'', channelTitle = str ''Sony MUSIC''\<rparr>]))
       (str ''Foo'') (str ''Song'') init) = Returned (Some (str ''y2''))"
  using selection_rule [of "sample_env Gui (\<lambda>q. if q = str ''Foo Song official music video'' then Items [] else Items
       [\<lparr>videoId = str ''y1'', title = str ''Other'', channelTitle = str ''tv''\<rparr>,
        \<lparr>videoId = str ''y2'', title = str ''Other'', channelTitle = str ''Sony MUSIC''\<rparr>])"
      "str ''Foo''" "str ''Song''" "str ''Foo''" "str ''Song''" init
      "[str ''Foo Song official music video'']" "str ''Foo Song music video''"
      "[str ''Foo Song official'', str ''Foo Song'']"
      "[\<lparr>videoId = str ''y1'', title = str ''Other'', channelTitle = str ''tv''\<rparr>,
        \<lparr>videoId = str ''y2'', title = str ''Other'', channelTitle = str ''Sony MUSIC''\<rparr>]"
      "tables (sample_env Gui (\<lambda>q. Items []))"
      "\<lparr>videoId = str ''y1'', title = str ''Other'', channelTitle = str ''tv''\<rparr>"]
  by (simp add: clean_Foo_Song sample_env_simps init_def search_queries_def str_def lower_def
        lower_latin1_def selected_def is_match_def Let_def)

section \<open>The normalisation and the plan of queries\<close>












lemma match_word_split:
  "match_word w s = Some r \<longleftrightarrow> (\<exists>k. s = k @ r \<and> list_all2 ci_char w k)"
proof (induction w s rule: match_word.induct)
  case (1 s)
  then show ?case by auto
next
  case (2 p ps)
  then show ?case by (auto simp: list_all2_Cons1)
next
  case (3 p ps c cs)
  show ?case
  proof (cases "ci_char p c")
    case True
    have "(\<exists>k. c # cs = k @ r \<and> list_all2 ci_char (p # ps) k)
          \<longleftrightarrow> (\<exists>k'. cs = k' @ r \<and> list_all2 ci_char ps k')"
      using True by (auto simp: list_all2_Cons1 Cons_eq_append_conv)
    with 3 True show ?thesis by simp
  next
    case False
    then show ?thesis by (auto simp: list_all2_Cons1 Cons_eq_append_conv)
  qed
qed


lemma first_match_Some:
  "w \<in> set ws \<Longrightarrow> list_all2 ci_char w k \<Longrightarrow> first_match ws (k @ r) \<noteq> None"
proof (induction ws)
  case Nil
  then show ?case by simp
next
  case (Cons v ws)
  show ?case
  proof (cases "match_word v (k @ r)")
    case None
    with Cons show ?thesis
      using match_word_split [of w "k @ r" r] by auto
  next
    case (Some a)
    then show ?thesis by simp
  qed
qed



















end
